theory Spec2Isabelle
  imports Main "HOL-Library.Word"
begin

section \<open>Status codes and the thread's last error\<close>

text \<open>
  Modelled from the spec: the macros \<open>LLBC_OK\<close> and \<open>LLBC_FAILED\<close> are used by
  \<open>ComponentInl.h\<close> but defined in a header that is not part of the sources at hand.
  The spec says that functions return a status code and that errors return non-zero; the
  success code is zero and the failure code is a fixed non-zero integer.
\<close>

definition LLBC_OK :: int where
  "LLBC_OK = 0"

definition LLBC_FAILED :: int where
  "LLBC_FAILED = - 1"

text \<open>
  Modelled from the spec: the error numbers \<open>LLBC_ERROR_ARG\<close>, \<open>LLBC_ERROR_NOT_FOUND\<close>
  and \<open>LLBC_ERROR_REPEAT\<close> are used by \<open>ComponentInl.h\<close> but defined elsewhere. They are
  the kinds \<open>Arg\<close>, \<open>NotFound\<close> and \<open>Repeat\<close> of the spec's error taxonomy, whose other
  kinds complete the datatype.
\<close>

datatype LLBC_Errno =
    LLBC_ERROR_ARG
  | LLBC_ERROR_NOT_FOUND
  | LLBC_ERROR_REPEAT
  | LLBC_ERROR_STATE
  | LLBC_ERROR_PROTOCOL
  | LLBC_ERROR_WOULD_BLOCK
  | LLBC_ERROR_CLOSED
  | LLBC_ERROR_TIMEOUT
  | LLBC_ERROR_INTERNAL

text \<open>
  What a method handler can see and change besides its arguments: the thread-local last
  error, the application's own state \<open>app\<close>, and \<open>invoked\<close>, the names under which
  \<open>CallMethod\<close> has run a handler so far (a trace kept by the model, so that "no method
  is invoked" can be stated).
\<close>

record 's env =
  lastError :: LLBC_Errno
  invoked :: "string list"
  app :: 's

definition LLBC_SetLastError :: "LLBC_Errno \<Rightarrow> 's env \<Rightarrow> 's env" where
  "LLBC_SetLastError no e = e\<lparr>lastError := no\<rparr>"

section \<open>The method table of a component\<close>

text \<open>
  \<open>LLBC_ComponentMethod\<close> is a delegate \<open>int (const LLBC_Variant &arg, LLBC_Variant &ret)\<close>.
  A bound delegate is a function from the argument, the incoming value of \<open>ret\<close> and the
  environment to the status, the outgoing value of \<open>ret\<close> and the new environment; the
  default-constructed delegate is \<open>None\<close>, and \<open>!meth\<close> holds exactly for it.
\<close>

type_synonym ('v, 's) handler = "'v \<Rightarrow> 'v \<Rightarrow> 's env \<Rightarrow> int \<times> 'v \<times> 's env"

type_synonym ('v, 's) LLBC_ComponentMethod = "('v, 's) handler option"

definition nullMeth :: "('v, 's) LLBC_ComponentMethod" where
  "nullMeth = None"

text \<open>
  \<open>LLBC_ComponentMethods\<close> holds every binding twice: in the hash map \<open>_meths\<close>, keyed by
  the method name, and in the vector \<open>_methList\<close> of (name, method) pairs, in the order of
  registration.
\<close>

record ('v, 's) LLBC_ComponentMethods =
  meths :: "string \<rightharpoonup> ('v, 's) LLBC_ComponentMethod"
  methList :: "(string \<times> ('v, 's) LLBC_ComponentMethod) list"

definition LLBC_ComponentMethods_ctor :: "('v, 's) LLBC_ComponentMethods" where
  "LLBC_ComponentMethods_ctor = \<lparr>meths = Map.empty, methList = []\<rparr>"

text \<open>The \<open>for\<close> loop of \<open>GetMethod\<close>: the first pair whose name equals \<open>methName\<close>.\<close>

fun scan_methList :: "(string \<times> 'm) list \<Rightarrow> string \<Rightarrow> 'm option" where
  "scan_methList [] methName = None"
| "scan_methList (methPair # rest) methName =
     (if fst methPair = methName then Some (snd methPair) else scan_methList rest methName)"

text \<open>
  \<open>GetMethod\<close>: up to 30 entries the list is scanned, beyond that the hash map is asked;
  a miss on either path falls through to the common tail, which sets the last error and
  returns the null method.
\<close>

definition LLBC_ComponentMethods_GetMethod ::
  "('v, 's) LLBC_ComponentMethods \<Rightarrow> string \<Rightarrow> 's env \<Rightarrow> ('v, 's) LLBC_ComponentMethod \<times> 's env" where
  "LLBC_ComponentMethods_GetMethod t methName e =
     (let methSize = length (methList t);
          found = (if methSize \<le> 30 then scan_methList (methList t) methName
                   else meths t methName)
      in case found of
           Some meth \<Rightarrow> (meth, e)
         | None \<Rightarrow> (nullMeth, LLBC_SetLastError LLBC_ERROR_NOT_FOUND e))"

text \<open>
  \<open>AddMethod\<close>: \<open>_meths.emplace\<close> inserts only when the key is absent and reports whether
  it did; the list is extended only after a successful insertion.
\<close>

definition LLBC_ComponentMethods_AddMethod ::
  "string \<Rightarrow> ('v, 's) LLBC_ComponentMethod \<Rightarrow> ('v, 's) LLBC_ComponentMethods \<Rightarrow> 's env
     \<Rightarrow> int \<times> ('v, 's) LLBC_ComponentMethods \<times> 's env" where
  "LLBC_ComponentMethods_AddMethod methName meth t e =
     (if methName = [] then (LLBC_FAILED, t, LLBC_SetLastError LLBC_ERROR_ARG e)
      else case meths t methName of
             Some present \<Rightarrow> (LLBC_FAILED, t, LLBC_SetLastError LLBC_ERROR_REPEAT e)
           | None \<Rightarrow>
               (LLBC_OK,
                t\<lparr>meths := (meths t)(methName \<mapsto> meth),
                  methList := methList t @ [(methName, meth)]\<rparr>,
                e))"

text \<open>
  \<open>CallMethod\<close> on the table: a null method (a miss, or a null delegate that was
  registered) gives \<open>LLBC_FAILED\<close> and leaves \<open>ret\<close> alone; otherwise the handler runs.
\<close>

definition LLBC_ComponentMethods_CallMethod ::
  "string \<Rightarrow> 'v \<Rightarrow> 'v \<Rightarrow> ('v, 's) LLBC_ComponentMethods \<Rightarrow> 's env \<Rightarrow> int \<times> 'v \<times> 's env" where
  "LLBC_ComponentMethods_CallMethod methName arg ret t e =
     (case LLBC_ComponentMethods_GetMethod t methName e of
        (meth, e1) \<Rightarrow>
          (case meth of
             None \<Rightarrow> (LLBC_FAILED, ret, e1)
           | Some h \<Rightarrow> h arg ret (e1\<lparr>invoked := invoked e1 @ [methName]\<rparr>)))"

text \<open>
  Of \<open>LLBC_Component\<close> only the pointer \<open>_meths\<close> matters here: it is null until the
  first \<open>AddMethod\<close>, which allocates the table before it delegates.
\<close>

record ('v, 's) LLBC_Component =
  comp_meths :: "('v, 's) LLBC_ComponentMethods option"

definition LLBC_Component_ctor :: "('v, 's) LLBC_Component" where
  "LLBC_Component_ctor = \<lparr>comp_meths = None\<rparr>"

definition LLBC_Component_AddMethod ::
  "string \<Rightarrow> ('v, 's) LLBC_ComponentMethod \<Rightarrow> ('v, 's) LLBC_Component \<Rightarrow> 's env
     \<Rightarrow> int \<times> ('v, 's) LLBC_Component \<times> 's env" where
  "LLBC_Component_AddMethod methName meth c e =
     (let t = (case comp_meths c of None \<Rightarrow> LLBC_ComponentMethods_ctor | Some t0 \<Rightarrow> t0)
      in case LLBC_ComponentMethods_AddMethod methName meth t e of
           (rc, t', e') \<Rightarrow> (rc, c\<lparr>comp_meths := Some t'\<rparr>, e'))"

definition LLBC_Component_CallMethod ::
  "string \<Rightarrow> 'v \<Rightarrow> 'v \<Rightarrow> ('v, 's) LLBC_Component \<Rightarrow> 's env \<Rightarrow> int \<times> 'v \<times> 's env" where
  "LLBC_Component_CallMethod methName arg ret c e =
     (case comp_meths c of
        None \<Rightarrow> (LLBC_FAILED, ret, LLBC_SetLastError LLBC_ERROR_NOT_FOUND e)
      | Some t \<Rightarrow> LLBC_ComponentMethods_CallMethod methName arg ret t e)"

text \<open>
  A run of \<open>AddMethod\<close> calls, one after the other, whatever each returns: on the table
  itself and on a component.
\<close>

fun AddMethods ::
  "(string \<times> ('v, 's) LLBC_ComponentMethod) list \<Rightarrow> ('v, 's) LLBC_ComponentMethods \<Rightarrow> 's env
     \<Rightarrow> ('v, 's) LLBC_ComponentMethods \<times> 's env" where
  "AddMethods [] t e = (t, e)"
| "AddMethods (call # calls) t e =
     (case LLBC_ComponentMethods_AddMethod (fst call) (snd call) t e of
        (rc, t', e') \<Rightarrow> AddMethods calls t' e')"

fun Component_AddMethods ::
  "(string \<times> ('v, 's) LLBC_ComponentMethod) list \<Rightarrow> ('v, 's) LLBC_Component \<Rightarrow> 's env
     \<Rightarrow> ('v, 's) LLBC_Component \<times> 's env" where
  "Component_AddMethods [] c e = (c, e)"
| "Component_AddMethods (call # calls) c e =
     (case LLBC_Component_AddMethod (fst call) (snd call) c e of
        (rc, c', e') \<Rightarrow> Component_AddMethods calls c' e')"

text \<open>
  The lookup as the spec words it: the method table is a map from method name to
  invocable, a lookup is answered by that map alone, and a miss is the \<open>NotFound\<close> kind.
\<close>

definition GetMethod_spec ::
  "('v, 's) LLBC_ComponentMethods \<Rightarrow> string \<Rightarrow> 's env \<Rightarrow> ('v, 's) LLBC_ComponentMethod \<times> 's env" where
  "GetMethod_spec t methName e =
     (case meths t methName of
        Some meth \<Rightarrow> (meth, e)
      | None \<Rightarrow> (nullMeth, e\<lparr>lastError := LLBC_ERROR_NOT_FOUND\<rparr>))"

text \<open>The two structures of a table agree when the scan and the map answer alike.\<close>

definition methods_agree :: "('v, 's) LLBC_ComponentMethods \<Rightarrow> bool" where
  "methods_agree t \<longleftrightarrow> (\<forall>n. scan_methList (methList t) n = meths t n)"

text \<open>
  A component's table, when it has one, is held to the same agreement; a name is
  registered in a component when its table binds it.
\<close>

definition comp_agree :: "('v, 's) LLBC_Component \<Rightarrow> bool" where
  "comp_agree c \<longleftrightarrow> (case comp_meths c of None \<Rightarrow> True | Some t \<Rightarrow> methods_agree t)"

definition registered :: "('v, 's) LLBC_Component \<Rightarrow> string \<Rightarrow> bool" where
  "registered c methName \<longleftrightarrow>
     (case comp_meths c of
        None \<Rightarrow> False
      | Some t \<Rightarrow> (case meths t methName of None \<Rightarrow> False | Some meth \<Rightarrow> True))"

section \<open>Objects, pool stacks and the heap\<close>

text \<open>
  Objects and pool stacks live on a heap and are named by their addresses. \<open>_ref\<close> and
  \<open>_autoRef\<close> are C++ \<open>int\<close>s (\<open>GetRefCount\<close> returns \<open>_ref\<close> as \<open>int\<close>): 32-bit words
  read as two's complement, so \<open>++\<close> and \<open>--\<close> wrap around. \<open>_poolStack\<close> is a pointer
  to a pool stack, or null.
\<close>

type_synonym obj_ptr = nat
type_synonym stack_ptr = nat

record LLBC_Object =
  ref :: "32 word"
  autoRef :: "32 word"
  poolStack :: "stack_ptr option"

text \<open>
  A pool stack is the list of its frames, the top frame first; a frame lists the objects
  recorded in it, in the order of their enlistment.
\<close>

type_synonym LLBC_AutoReleasePoolStack = "obj_ptr list list"

record heap =
  objects :: "obj_ptr \<rightharpoonup> LLBC_Object"
  poolStacks :: "stack_ptr \<Rightarrow> LLBC_AutoReleasePoolStack"

text \<open>
  The library's thread-local storage, as far as \<open>AutoRelease\<close> reads it:
  \<open>tls->objbaseTls.poolStack\<close>, null on a thread that was given no pool stack.
\<close>

record LLBC_LibTls =
  objbaseTls_poolStack :: "stack_ptr option"

text \<open>
  What C++ leaves undefined is a fault of the model: a member function called on an object
  that was deleted, and a member function called through a null pointer.
\<close>

datatype fault = UseAfterFree | NullPointerDereference

definition LLBC_Object_ctor :: LLBC_Object where
  "LLBC_Object_ctor = \<lparr>ref = 1, autoRef = 0, poolStack = None\<rparr>"

definition LLBC_Object_GetRefCount :: "LLBC_Object \<Rightarrow> int" where
  "LLBC_Object_GetRefCount obj = sint (ref obj)"

text \<open>
  Modelled from the spec: \<open>LLBC_AutoReleasePoolStack::RemoveObject\<close> is called by the
  destructor but defined in a file that is not part of the sources at hand. The spec asks
  that an object with \<open>autoRef > 0\<close> be reachable from its pool stack while it lives; the
  destructor ends that, so the object is struck from every frame.
\<close>

definition LLBC_AutoReleasePoolStack_RemoveObject ::
  "obj_ptr \<Rightarrow> LLBC_AutoReleasePoolStack \<Rightarrow> LLBC_AutoReleasePoolStack" where
  "LLBC_AutoReleasePoolStack_RemoveObject obj st = map (filter (\<lambda>x. x \<noteq> obj)) st"

text \<open>
  Modelled from the spec: \<open>LLBC_AutoReleasePoolStack::AddObject\<close> is called by
  \<open>AutoRelease\<close> but defined in a file that is not part of the sources at hand. The spec:
  enlisting increments \<open>autoRef\<close> and records the object in the top frame, it does not
  change \<open>ref\<close>; enlisting with no active pool returns a distinguishable failure code, and
  no pool is created implicitly.
\<close>

definition LLBC_AutoReleasePoolStack_AddObject ::
  "obj_ptr \<Rightarrow> LLBC_Object \<Rightarrow> LLBC_AutoReleasePoolStack
     \<Rightarrow> int \<times> LLBC_Object \<times> LLBC_AutoReleasePoolStack" where
  "LLBC_AutoReleasePoolStack_AddObject this obj st =
     (case st of
        [] \<Rightarrow> (LLBC_FAILED, obj, st)
      | frame # below \<Rightarrow> (LLBC_OK, obj\<lparr>autoRef := autoRef obj + 1\<rparr>, (frame @ [this]) # below))"

text \<open>
  Modelled from the spec: the macros \<open>LLBC_AtomicFetchAndAdd\<close> and
  \<open>LLBC_AtomicFetchAndSub\<close> are defined in a header that is not part of the sources at
  hand. The spec calls them atomic add and sub; run by one thread, each yields the value
  held before it together with the value stored.
\<close>

definition LLBC_AtomicFetchAndAdd :: "32 word \<Rightarrow> 32 word \<Rightarrow> 32 word \<times> 32 word" where
  "LLBC_AtomicFetchAndAdd cell v = (cell, cell + v)"

definition LLBC_AtomicFetchAndSub :: "32 word \<Rightarrow> 32 word \<Rightarrow> 32 word \<times> 32 word" where
  "LLBC_AtomicFetchAndSub cell v = (cell, cell - v)"

text \<open>The destructor, on the object's fields as they are when it runs.\<close>

definition LLBC_Object_dtor :: "obj_ptr \<Rightarrow> LLBC_Object \<Rightarrow> heap \<Rightarrow> heap" where
  "LLBC_Object_dtor this obj h =
     (if autoRef obj \<noteq> 0 \<and> poolStack obj \<noteq> None then
        (case poolStack obj of
           Some p \<Rightarrow>
             h\<lparr>poolStacks :=
                 (poolStacks h)(p := LLBC_AutoReleasePoolStack_RemoveObject this (poolStacks h p))\<rparr>
         | None \<Rightarrow> h)
      else h)"

text \<open>\<open>LLBC_Delete(this)\<close>: the destructor runs, then the object is gone from the heap.\<close>

definition LLBC_Delete :: "obj_ptr \<Rightarrow> heap \<Rightarrow> heap" where
  "LLBC_Delete this h =
     (case objects h this of
        None \<Rightarrow> h
      | Some obj \<Rightarrow>
          (let h1 = LLBC_Object_dtor this obj h
           in h1\<lparr>objects := (objects h1)(this := None)\<rparr>))"

definition set_ref :: "obj_ptr \<Rightarrow> LLBC_Object \<Rightarrow> 32 word \<Rightarrow> heap \<Rightarrow> heap" where
  "set_ref this obj r h = h\<lparr>objects := (objects h)(this \<mapsto> obj\<lparr>ref := r\<rparr>)\<rparr>"

definition LLBC_Object_Release :: "obj_ptr \<Rightarrow> heap \<Rightarrow> fault + heap" where
  "LLBC_Object_Release this h =
     (case objects h this of
        None \<Rightarrow> Inl UseAfterFree
      | Some obj \<Rightarrow>
          (let r = ref obj - 1;
               h1 = set_ref this obj r h
           in if r = 0 then Inr (LLBC_Delete this h1) else Inr h1))"

definition LLBC_Object_SafeRetain :: "obj_ptr \<Rightarrow> heap \<Rightarrow> fault + heap" where
  "LLBC_Object_SafeRetain this h =
     (case objects h this of
        None \<Rightarrow> Inl UseAfterFree
      | Some obj \<Rightarrow>
          (case LLBC_AtomicFetchAndAdd (ref obj) 1 of
             (before, stored) \<Rightarrow> Inr (set_ref this obj stored h)))"

definition LLBC_Object_SafeRelease :: "obj_ptr \<Rightarrow> heap \<Rightarrow> fault + heap" where
  "LLBC_Object_SafeRelease this h =
     (case objects h this of
        None \<Rightarrow> Inl UseAfterFree
      | Some obj \<Rightarrow>
          (case LLBC_AtomicFetchAndSub (ref obj) 1 of
             (before, stored) \<Rightarrow>
               (let h1 = set_ref this obj stored h
                in if before = 1 then Inr (LLBC_Delete this h1) else Inr h1)))"

definition LLBC_Object_Retain :: "obj_ptr \<Rightarrow> heap \<Rightarrow> fault + heap" where
  "LLBC_Object_Retain this h =
     (case objects h this of
        None \<Rightarrow> Inl UseAfterFree
      | Some obj \<Rightarrow> Inr (set_ref this obj (ref obj + 1) h))"

text \<open>
  \<open>AutoRelease\<close>: \<open>_poolStack\<close> is taken from the thread-local storage only while it is
  null; \<open>AddObject\<close> is then called through it, whatever it holds.
\<close>

definition LLBC_Object_AutoRelease ::
  "obj_ptr \<Rightarrow> LLBC_LibTls \<Rightarrow> heap \<Rightarrow> fault + (int \<times> heap)" where
  "LLBC_Object_AutoRelease this tls h =
     (case objects h this of
        None \<Rightarrow> Inl UseAfterFree
      | Some obj \<Rightarrow>
          (let obj1 = (if poolStack obj = None
                       then obj\<lparr>poolStack := objbaseTls_poolStack tls\<rparr> else obj)
           in case poolStack obj1 of
                None \<Rightarrow> Inl NullPointerDereference
              | Some p \<Rightarrow>
                  (case LLBC_AutoReleasePoolStack_AddObject this obj1 (poolStacks h p) of
                     (rc, obj2, st) \<Rightarrow>
                       Inr (rc, h\<lparr>objects := (objects h)(this \<mapsto> obj2),
                                  poolStacks := (poolStacks h)(p := st)\<rparr>))))"

text \<open>One call after another: the second runs on the heap the first returns.\<close>

definition and_then :: "fault + heap \<Rightarrow> (heap \<Rightarrow> fault + heap) \<Rightarrow> fault + heap" where
  "and_then r f = (case r of Inl x \<Rightarrow> Inl x | Inr h \<Rightarrow> f h)"

text \<open>
  The member functions of \<open>LLBC_Object\<close> that write to the heap, as operations, and a run
  of them on any objects; a fault ends the run.
\<close>

datatype object_op = OpRelease | OpSafeRetain | OpSafeRelease | OpRetain | OpAutoRelease LLBC_LibTls

fun apply_op :: "obj_ptr \<times> object_op \<Rightarrow> heap \<Rightarrow> fault + heap" where
  "apply_op (target, OpRelease) h = LLBC_Object_Release target h"
| "apply_op (target, OpSafeRetain) h = LLBC_Object_SafeRetain target h"
| "apply_op (target, OpSafeRelease) h = LLBC_Object_SafeRelease target h"
| "apply_op (target, OpRetain) h = LLBC_Object_Retain target h"
| "apply_op (target, OpAutoRelease tls) h =
     (case LLBC_Object_AutoRelease target tls h of Inl x \<Rightarrow> Inl x | Inr (rc, h') \<Rightarrow> Inr h')"

fun apply_ops :: "(obj_ptr \<times> object_op) list \<Rightarrow> heap \<Rightarrow> fault + heap" where
  "apply_ops [] h = Inr h"
| "apply_ops (x # xs) h = and_then (apply_op x h) (apply_ops xs)"

text \<open>
  An object is pinned to a pool stack when, as long as it lives, its \<open>_poolStack\<close>
  points to that stack.
\<close>

definition pinned :: "obj_ptr \<Rightarrow> stack_ptr \<Rightarrow> heap \<Rightarrow> bool" where
  "pinned this p h \<longleftrightarrow>
     (case objects h this of None \<Rightarrow> True | Some obj \<Rightarrow> poolStack obj = Some p)"

section \<open>Sample data\<close>

text \<open>
  A handler, an environment and a table of thirty bindings, named by the letters
  \<open>a\<close> to \<open>z\<close> and \<open>A\<close> to \<open>D\<close>, on which the theorems below are run.
\<close>

definition sample_handler :: "(int, unit) handler" where
  "sample_handler arg ret e = (LLBC_OK, arg, e)"

definition sample_env :: "unit env" where
  "sample_env = \<lparr>lastError = LLBC_ERROR_INTERNAL, invoked = [], app = ()\<rparr>"

definition sample_calls :: "(string \<times> (int, unit) LLBC_ComponentMethod) list" where
  "sample_calls = map (\<lambda>c. ([c], Some sample_handler)) ''abcdefghijklmnopqrstuvwxyzABCD''"

definition sample_table :: "(int, unit) LLBC_ComponentMethods" where
  "sample_table = fst (AddMethods sample_calls LLBC_ComponentMethods_ctor sample_env)"

text \<open>
  A component after two calls of \<open>AddMethod\<close>: \<open>ping\<close> is registered, the empty name
  is refused.
\<close>

definition sample_component :: "(int, unit) LLBC_Component" where
  "sample_component =
     fst (Component_AddMethods [(''ping'', Some sample_handler), ([], Some sample_handler)]
            LLBC_Component_ctor sample_env)"

text \<open>
  A heap with a fresh object at address 0 and, at address 1, an object of reference count
  2 that was enlisted once in the pool stack at address 5; the pool stack at address 6
  has one empty frame, every other pool stack has no frame. One thread has the pool stack
  at address 6, another has none.
\<close>

definition sample_heap :: heap where
  "sample_heap =
     \<lparr>objects = [0 \<mapsto> LLBC_Object_ctor, 1 \<mapsto> \<lparr>ref = 2, autoRef = 1, poolStack = Some 5\<rparr>],
      poolStacks = (\<lambda>p. [])(5 := [[1]], 6 := [[]])\<rparr>"

definition no_poolStack_tls :: LLBC_LibTls where
  "no_poolStack_tls = \<lparr>objbaseTls_poolStack = None\<rparr>"

definition sample_tls :: LLBC_LibTls where
  "sample_tls = \<lparr>objbaseTls_poolStack = Some 6\<rparr>"

text \<open>A run of operations on both objects, and the heap it ends in.\<close>

definition sample_ops :: "(obj_ptr \<times> object_op) list" where
  "sample_ops =
     [(1, OpAutoRelease sample_tls), (1, OpRetain), (0, OpAutoRelease sample_tls),
      (1, OpSafeRelease), (0, OpRelease), (1, OpSafeRetain), (1, OpRelease)]"

definition sample_heap_after :: heap where
  "sample_heap_after =
     \<lparr>objects = [1 \<mapsto> \<lparr>ref = 2, autoRef = 2, poolStack = Some 5\<rparr>],
      poolStacks = (\<lambda>p. [])(5 := [[1, 1]], 6 := [[]])\<rparr>"

section \<open>Properties of the method table\<close>

lemma scan_methList_append:
  "scan_methList (ps @ [(k, m)]) n =
     (case scan_methList ps n of Some x \<Rightarrow> Some x | None \<Rightarrow> if k = n then Some m else None)"
  by (induction ps) auto

lemma methods_agree_ctor: "methods_agree LLBC_ComponentMethods_ctor"
  by (simp add: methods_agree_def LLBC_ComponentMethods_ctor_def)

lemma methods_agree_AddMethod:
  assumes "methods_agree t"
  shows "methods_agree (fst (snd (LLBC_ComponentMethods_AddMethod methName meth t e)))"
  using assms
  by (auto simp: methods_agree_def LLBC_ComponentMethods_AddMethod_def scan_methList_append
      split: option.splits)

lemma methods_agree_AddMethods:
  "methods_agree t \<Longrightarrow> methods_agree (fst (AddMethods calls t e))"
proof (induction calls arbitrary: t e)
  case Nil
  then show ?case by simp
next
  case (Cons call calls)
  have "methods_agree (fst (snd (LLBC_ComponentMethods_AddMethod (fst call) (snd call) t e)))"
    using Cons.prems by (rule methods_agree_AddMethod)
  then show ?case
    by (auto split: prod.splits intro: Cons.IH)
qed

lemma GetMethod_agree:
  "methods_agree t \<Longrightarrow> LLBC_ComponentMethods_GetMethod t n e = GetMethod_spec t n e"
  by (simp add: methods_agree_def LLBC_ComponentMethods_GetMethod_def GetMethod_spec_def
      LLBC_SetLastError_def split: option.splits)

lemma AddMethod_length:
  "length (methList (fst (snd (LLBC_ComponentMethods_AddMethod k m t e)))) =
     (if fst (LLBC_ComponentMethods_AddMethod k m t e) = LLBC_OK
      then Suc (length (methList t)) else length (methList t))"
  by (simp add: LLBC_ComponentMethods_AddMethod_def LLBC_OK_def LLBC_FAILED_def
      split: option.splits)

lemma AddMethod_meths_other:
  "n \<noteq> k \<Longrightarrow> meths (fst (snd (LLBC_ComponentMethods_AddMethod k m t e))) n = meths t n"
  by (simp add: LLBC_ComponentMethods_AddMethod_def split: option.splits)

lemma AddMethod_OK_fresh:
  "fst (LLBC_ComponentMethods_AddMethod k m t e) = LLBC_OK \<Longrightarrow> meths t k = None"
  by (simp add: LLBC_ComponentMethods_AddMethod_def LLBC_OK_def LLBC_FAILED_def
      split: option.splits if_splits)

lemma sample_table_methList: "methList sample_table = sample_calls"
  by (simp add: sample_table_def sample_calls_def LLBC_ComponentMethods_AddMethod_def
      LLBC_ComponentMethods_ctor_def)

lemma sample_table_E: "meths sample_table ''E'' = None"
  by (simp add: sample_table_def sample_calls_def LLBC_ComponentMethods_AddMethod_def
      LLBC_ComponentMethods_ctor_def)

lemma sample_table_a: "meths sample_table ''a'' = Some (Some sample_handler)"
  by (simp add: sample_table_def sample_calls_def LLBC_ComponentMethods_AddMethod_def
      LLBC_ComponentMethods_ctor_def)

text \<open>
  Claim C1. Whatever calls of \<open>AddMethod\<close> built the table (failed calls leave it as
  it was), the linear scan over the list and the hash map give the same answer for every
  name, so \<open>GetMethod\<close> returns what the spec's map lookup returns on either path. In
  particular, when a table of 30 entries (answered by the scan) takes one more binding
  and becomes a table of 31 entries (answered by the hash map), every name registered
  before is looked up with the same result as before.
\<close>

theorem GetMethod_path_independent:
  fixes calls :: "(string \<times> ('v, 's) LLBC_ComponentMethod) list"
  shows
  "(let t = fst (AddMethods calls LLBC_ComponentMethods_ctor e0) in
      scan_methList (methList t) n = meths t n \<and>
      LLBC_ComponentMethods_GetMethod t n e = GetMethod_spec t n e \<and>
      (length (methList t) = 30 \<and> fst (LLBC_ComponentMethods_AddMethod k m t e1) = LLBC_OK \<longrightarrow>
         (let t' = fst (snd (LLBC_ComponentMethods_AddMethod k m t e1)) in
            length (methList t') = 31 \<and>
            LLBC_ComponentMethods_GetMethod t' n e = GetMethod_spec t' n e \<and>
            (meths t n \<noteq> None \<longrightarrow>
               LLBC_ComponentMethods_GetMethod t' n e = LLBC_ComponentMethods_GetMethod t n e))))"
proof -
  define t where "t = fst (AddMethods calls (LLBC_ComponentMethods_ctor :: ('v, 's) LLBC_ComponentMethods) e0)"
  define t' where "t' = fst (snd (LLBC_ComponentMethods_AddMethod k m t e1))"
  have agree: "methods_agree t"
    unfolding t_def by (rule methods_agree_AddMethods [OF methods_agree_ctor])
  have agree': "methods_agree t'"
    unfolding t'_def using agree by (rule methods_agree_AddMethod)
  have paths: "scan_methList (methList t) n = meths t n"
    using agree by (simp add: methods_agree_def)
  have get: "LLBC_ComponentMethods_GetMethod t n e = GetMethod_spec t n e"
    using agree by (rule GetMethod_agree)
  have get': "LLBC_ComponentMethods_GetMethod t' n e = GetMethod_spec t' n e"
    using agree' by (rule GetMethod_agree)
  have step: "length (methList t') = 31 \<and>
      (meths t n \<noteq> None \<longrightarrow>
         LLBC_ComponentMethods_GetMethod t' n e = LLBC_ComponentMethods_GetMethod t n e)"
    if len: "length (methList t) = 30"
      and ok: "fst (LLBC_ComponentMethods_AddMethod k m t e1) = LLBC_OK"
  proof
    show "length (methList t') = 31"
      unfolding t'_def using len ok by (simp add: AddMethod_length)
    show "meths t n \<noteq> None \<longrightarrow>
        LLBC_ComponentMethods_GetMethod t' n e = LLBC_ComponentMethods_GetMethod t n e"
    proof
      assume reg: "meths t n \<noteq> None"
      have "meths t k = None" using ok by (rule AddMethod_OK_fresh)
      with reg have "n \<noteq> k" by auto
      then have "meths t' n = meths t n"
        unfolding t'_def by (rule AddMethod_meths_other)
      then have "GetMethod_spec t' n e = GetMethod_spec t n e"
        by (simp add: GetMethod_spec_def)
      with get get' show "LLBC_ComponentMethods_GetMethod t' n e = LLBC_ComponentMethods_GetMethod t n e"
        by simp
    qed
  qed
  show ?thesis
    using paths get get' step
    by (simp add: Let_def t_def [symmetric] t'_def [symmetric])
qed

text \<open>The same on the sample table of thirty bindings and the new name \<open>E\<close>.\<close>

theorem GetMethod_path_independent_witness:
  "length (methList sample_table) = 30 \<and>
   fst (LLBC_ComponentMethods_AddMethod ''E'' (Some sample_handler) sample_table sample_env) = LLBC_OK \<and>
   length (methList (fst (snd (LLBC_ComponentMethods_AddMethod ''E'' (Some sample_handler)
      sample_table sample_env)))) = 31 \<and>
   LLBC_ComponentMethods_GetMethod (fst (snd (LLBC_ComponentMethods_AddMethod ''E''
      (Some sample_handler) sample_table sample_env))) ''a'' sample_env =
     LLBC_ComponentMethods_GetMethod sample_table ''a'' sample_env \<and>
   LLBC_ComponentMethods_GetMethod sample_table ''a'' sample_env = (Some sample_handler, sample_env)"
proof -
  have len: "length (methList sample_table) = 30"
    by (simp add: sample_table_methList sample_calls_def)
  have ok: "fst (LLBC_ComponentMethods_AddMethod ''E'' (Some sample_handler) sample_table sample_env) = LLBC_OK"
    by (simp add: LLBC_ComponentMethods_AddMethod_def sample_table_E)
  have reg: "meths sample_table ''a'' \<noteq> None"
    by (simp add: sample_table_a)
  have val: "GetMethod_spec sample_table ''a'' sample_env = (Some sample_handler, sample_env)"
    by (simp add: GetMethod_spec_def sample_table_a)
  have inst:
    "LLBC_ComponentMethods_GetMethod sample_table ''a'' sample_env =
       GetMethod_spec sample_table ''a'' sample_env \<and>
     length (methList (fst (snd (LLBC_ComponentMethods_AddMethod ''E'' (Some sample_handler)
       sample_table sample_env)))) = 31 \<and>
     LLBC_ComponentMethods_GetMethod (fst (snd (LLBC_ComponentMethods_AddMethod ''E''
       (Some sample_handler) sample_table sample_env))) ''a'' sample_env =
       LLBC_ComponentMethods_GetMethod sample_table ''a'' sample_env"
    using GetMethod_path_independent [of sample_calls sample_env "''a''" sample_env "''E''"
        "Some sample_handler" sample_env] len ok reg
    unfolding Let_def sample_table_def by blast
  from inst val len ok show ?thesis
    by (simp only:) 
qed

text \<open>
  Claim C6. \<open>AddMethod\<close> with an empty name fails with the last error \<open>Arg\<close>; with a
  name that is already bound it fails with the last error \<open>Repeat\<close>; either failure
  returns the table as it was, hash map and list alike. Otherwise it returns \<open>LLBC_OK\<close>,
  binds the name in the hash map, appends the binding to the list and leaves the last
  error alone. The failure status differs from \<open>LLBC_OK\<close>.
\<close>

theorem AddMethod_results:
  "(methName = [] \<longrightarrow>
      LLBC_ComponentMethods_AddMethod methName meth t e =
        (LLBC_FAILED, t, e\<lparr>lastError := LLBC_ERROR_ARG\<rparr>)) \<and>
   (methName \<noteq> [] \<and> meths t methName \<noteq> None \<longrightarrow>
      LLBC_ComponentMethods_AddMethod methName meth t e =
        (LLBC_FAILED, t, e\<lparr>lastError := LLBC_ERROR_REPEAT\<rparr>)) \<and>
   (methName \<noteq> [] \<and> meths t methName = None \<longrightarrow>
      (\<exists>t'. LLBC_ComponentMethods_AddMethod methName meth t e = (LLBC_OK, t', e) \<and>
            meths t' = (meths t)(methName \<mapsto> meth) \<and>
            methList t' = methList t @ [(methName, meth)])) \<and>
   LLBC_FAILED \<noteq> LLBC_OK"
  by (auto simp: LLBC_ComponentMethods_AddMethod_def LLBC_SetLastError_def LLBC_OK_def
      LLBC_FAILED_def)

text \<open>The three cases on the sample table.\<close>

theorem AddMethod_results_witness:
  "LLBC_ComponentMethods_AddMethod [] (Some sample_handler) sample_table sample_env =
     (LLBC_FAILED, sample_table, sample_env\<lparr>lastError := LLBC_ERROR_ARG\<rparr>) \<and>
   meths sample_table ''a'' \<noteq> None \<and>
   LLBC_ComponentMethods_AddMethod ''a'' nullMeth sample_table sample_env =
     (LLBC_FAILED, sample_table, sample_env\<lparr>lastError := LLBC_ERROR_REPEAT\<rparr>) \<and>
   meths sample_table ''E'' = None \<and>
   (\<exists>t'. LLBC_ComponentMethods_AddMethod ''E'' (Some sample_handler) sample_table sample_env =
           (LLBC_OK, t', sample_env) \<and>
         meths t' = (meths sample_table)(''E'' \<mapsto> Some sample_handler) \<and>
         methList t' = methList sample_table @ [(''E'', Some sample_handler)])"
proof -
  have a: "meths sample_table ''a'' \<noteq> None" by (simp add: sample_table_a)
  have b: "meths sample_table ''E'' = None" by (rule sample_table_E)
  have c: "''a'' \<noteq> []" and d: "''E'' \<noteq> []" by simp_all
  show ?thesis
    using AddMethod_results [of "[]" "Some sample_handler" sample_table sample_env]
      AddMethod_results [of "''a''" nullMeth sample_table sample_env]
      AddMethod_results [of "''E''" "Some sample_handler" sample_table sample_env]
      a b c d
    by blast
qed

lemma comp_agree_ctor: "comp_agree LLBC_Component_ctor"
  by (simp add: comp_agree_def LLBC_Component_ctor_def)

lemma comp_agree_AddMethod:
  assumes "comp_agree c"
  shows "comp_agree (fst (snd (LLBC_Component_AddMethod methName meth c e)))"
proof -
  define t where "t = (case comp_meths c of None \<Rightarrow> LLBC_ComponentMethods_ctor | Some t0 \<Rightarrow> t0)"
  have "methods_agree t"
    using assms methods_agree_ctor by (simp add: t_def comp_agree_def split: option.splits)
  then have "methods_agree (fst (snd (LLBC_ComponentMethods_AddMethod methName meth t e)))"
    by (rule methods_agree_AddMethod)
  then show ?thesis
    by (cases "LLBC_ComponentMethods_AddMethod methName meth t e")
      (simp add: LLBC_Component_AddMethod_def comp_agree_def t_def [symmetric])
qed

lemma comp_agree_AddMethods:
  "comp_agree c \<Longrightarrow> comp_agree (fst (Component_AddMethods calls c e))"
proof (induction calls arbitrary: c e)
  case Nil
  then show ?case by simp
next
  case (Cons call calls)
  have "comp_agree (fst (snd (LLBC_Component_AddMethod (fst call) (snd call) c e)))"
    using Cons.prems by (rule comp_agree_AddMethod)
  then show ?case
    by (auto split: prod.splits intro: Cons.IH)
qed

lemma CallMethod_miss:
  assumes "methods_agree t" and "meths t methName = None"
  shows "LLBC_ComponentMethods_CallMethod methName arg ret t e =
           (LLBC_FAILED, ret, e\<lparr>lastError := LLBC_ERROR_NOT_FOUND\<rparr>)"
proof -
  have "LLBC_ComponentMethods_GetMethod t methName e = GetMethod_spec t methName e"
    using assms(1) by (rule GetMethod_agree)
  then show ?thesis
    using assms(2)
    by (simp add: LLBC_ComponentMethods_CallMethod_def GetMethod_spec_def nullMeth_def)
qed

lemma registered_AddMethods:
  "registered (fst (Component_AddMethods calls c e)) n \<longleftrightarrow>
     registered c n \<or> (n \<in> fst ` set calls \<and> n \<noteq> [])"
proof (induction calls arbitrary: c e)
  case Nil
  then show ?case by simp
next
  case (Cons call calls)
  have step: "registered (fst (snd (LLBC_Component_AddMethod (fst call) (snd call) c e))) n \<longleftrightarrow>
      registered c n \<or> (n = fst call \<and> n \<noteq> [])"
    by (auto simp: registered_def LLBC_Component_AddMethod_def LLBC_ComponentMethods_AddMethod_def
        LLBC_ComponentMethods_ctor_def Let_def split: option.splits)
  show ?case
    using step by (auto split: prod.splits simp: Cons.IH)
qed

text \<open>
  Claim C7. On a component built by any calls of \<open>AddMethod\<close>, also by none at all,
  \<open>CallMethod\<close> with a name that is not registered returns \<open>LLBC_FAILED\<close>, sets the
  last error to \<open>NotFound\<close>, leaves \<open>ret\<close> and the application state alone and runs
  no handler: the trace of invocations is as it was.
\<close>

theorem CallMethod_not_registered:
  fixes calls :: "(string \<times> ('v, 's) LLBC_ComponentMethod) list"
  assumes "c = fst (Component_AddMethods calls LLBC_Component_ctor e0)"
    and "\<not> registered c methName"
  shows "LLBC_Component_CallMethod methName arg ret c e =
           (LLBC_FAILED, ret, e\<lparr>lastError := LLBC_ERROR_NOT_FOUND\<rparr>) \<and>
         LLBC_FAILED \<noteq> LLBC_OK \<and>
         invoked (snd (snd (LLBC_Component_CallMethod methName arg ret c e))) = invoked e"
proof -
  have agree: "comp_agree c"
    unfolding assms(1) by (rule comp_agree_AddMethods [OF comp_agree_ctor])
  have call: "LLBC_Component_CallMethod methName arg ret c e =
           (LLBC_FAILED, ret, e\<lparr>lastError := LLBC_ERROR_NOT_FOUND\<rparr>)"
  proof (cases "comp_meths c")
    case None
    then show ?thesis
      by (simp add: LLBC_Component_CallMethod_def LLBC_SetLastError_def)
  next
    case (Some t)
    have "methods_agree t" using agree Some by (simp add: comp_agree_def)
    moreover have "meths t methName = None"
      using assms(2) Some by (simp add: registered_def split: option.splits)
    ultimately have "LLBC_ComponentMethods_CallMethod methName arg ret t e =
           (LLBC_FAILED, ret, e\<lparr>lastError := LLBC_ERROR_NOT_FOUND\<rparr>)"
      by (rule CallMethod_miss)
    with Some show ?thesis by (simp add: LLBC_Component_CallMethod_def)
  qed
  then show ?thesis by (simp add: LLBC_FAILED_def LLBC_OK_def)
qed

text \<open>A name that was never added, on the sample component and on a fresh one.\<close>

theorem CallMethod_not_registered_witness:
  "\<not> registered sample_component ''pong'' \<and>
   LLBC_Component_CallMethod ''pong'' 7 0 sample_component sample_env =
     (LLBC_FAILED, 0, sample_env\<lparr>lastError := LLBC_ERROR_NOT_FOUND\<rparr>) \<and>
   \<not> registered (LLBC_Component_ctor :: (int, unit) LLBC_Component) ''ping'' \<and>
   LLBC_Component_CallMethod ''ping'' 7 0 (LLBC_Component_ctor :: (int, unit) LLBC_Component) sample_env =
     (LLBC_FAILED, 0, sample_env\<lparr>lastError := LLBC_ERROR_NOT_FOUND\<rparr>)"
proof -
  have a: "\<not> registered sample_component ''pong''"
    unfolding sample_component_def registered_AddMethods
    by (simp add: registered_def LLBC_Component_ctor_def)
  have b: "\<not> registered (LLBC_Component_ctor :: (int, unit) LLBC_Component) ''ping''"
    by (simp add: registered_def LLBC_Component_ctor_def)
  have c: "(LLBC_Component_ctor :: (int, unit) LLBC_Component) =
      fst (Component_AddMethods [] LLBC_Component_ctor sample_env)"
    by simp
  show ?thesis
    using CallMethod_not_registered [OF sample_component_def a, of 7 0 sample_env]
      CallMethod_not_registered [OF c b, of 7 0 sample_env] a b
    by blast
qed

section \<open>Properties of objects\<close>

lemma Delete_gone: "objects (LLBC_Delete this h) this = None"
  by (simp add: LLBC_Delete_def LLBC_Object_dtor_def Let_def split: option.splits)

lemma Delete_others: "x \<noteq> this \<Longrightarrow> objects (LLBC_Delete this h) x = objects h x"
  by (simp add: LLBC_Delete_def LLBC_Object_dtor_def Let_def split: option.splits)

lemma sint_dec:
  fixes r :: "32 word"
  assumes "- (2 ^ 31) < sint r"
  shows "sint (r - 1) = sint r - 1"
proof -
  have "sint r < 2 ^ 31" using sint_lt [of r] by simp
  then have "signed_take_bit 31 (sint r - 1) = sint r - 1"
    using assms by (intro signed_take_bit_int_eq_self) simp_all
  then show ?thesis
    by (simp add: sint_word_diff)
qed

text \<open>
  Claim C2. The claim asks for a failure code when the calling thread has no pool stack.
  The code does not give one: on a fresh object, whose \<open>_poolStack\<close> is null, and a
  thread whose thread-local pool stack is null, \<open>AutoRelease\<close> stores the null pointer
  and calls \<open>AddObject\<close> through it. No pool is created on the way.
\<close>

theorem AutoRelease_null_poolStack:
  "LLBC_Object_AutoRelease 0 no_poolStack_tls sample_heap = Inl NullPointerDereference"
  by (simp add: LLBC_Object_AutoRelease_def no_poolStack_tls_def sample_heap_def
      LLBC_Object_ctor_def)

text \<open>
  Claim C3. On a live object, \<open>AutoRelease\<close> returns whenever the object or the
  thread has a pool stack, and whenever it returns, \<open>ref\<close> is what it was: the object's
  \<open>_poolStack\<close> is resolved from the thread-local storage if it was null and kept
  otherwise, no other object changes, on \<open>LLBC_OK\<close> \<open>autoRef\<close> has grown by one and the
  object is recorded last in the top frame of its pool stack, and on a failure neither
  \<open>autoRef\<close> nor any pool stack has changed.
\<close>

theorem AutoRelease_keeps_ref:
  assumes "objects h this = Some obj"
  shows "(poolStack obj \<noteq> None \<or> objbaseTls_poolStack tls \<noteq> None \<longrightarrow>
            (\<exists>rc h'. LLBC_Object_AutoRelease this tls h = Inr (rc, h'))) \<and>
         (\<forall>rc h'. LLBC_Object_AutoRelease this tls h = Inr (rc, h') \<longrightarrow>
            (\<exists>obj'. objects h' this = Some obj' \<and>
               ref obj' = ref obj \<and>
               poolStack obj' =
                 (case poolStack obj of None \<Rightarrow> objbaseTls_poolStack tls | Some p \<Rightarrow> Some p) \<and>
               (\<forall>x. x \<noteq> this \<longrightarrow> objects h' x = objects h x) \<and>
               (rc = LLBC_OK \<longrightarrow>
                  autoRef obj' = autoRef obj + 1 \<and>
                  (\<exists>p frame below. poolStack obj' = Some p \<and> poolStacks h p = frame # below \<and>
                     poolStacks h' = (poolStacks h)(p := (frame @ [this]) # below))) \<and>
               (rc \<noteq> LLBC_OK \<longrightarrow>
                  rc = LLBC_FAILED \<and> autoRef obj' = autoRef obj \<and> poolStacks h' = poolStacks h)))"
proof (intro conjI allI impI)
  assume "poolStack obj \<noteq> None \<or> objbaseTls_poolStack tls \<noteq> None"
  then show "\<exists>rc h'. LLBC_Object_AutoRelease this tls h = Inr (rc, h')"
    using assms
    by (auto simp: LLBC_Object_AutoRelease_def LLBC_AutoReleasePoolStack_AddObject_def Let_def
        split: option.splits list.splits)
next
  fix rc h'
  assume run: "LLBC_Object_AutoRelease this tls h = Inr (rc, h')"
  define obj1 where "obj1 = (if poolStack obj = None
                       then obj\<lparr>poolStack := objbaseTls_poolStack tls\<rparr> else obj)"
  have ps1: "poolStack obj1 =
      (case poolStack obj of None \<Rightarrow> objbaseTls_poolStack tls | Some p \<Rightarrow> Some p)"
    by (simp add: obj1_def split: option.splits)
  have r1: "ref obj1 = ref obj" and a1: "autoRef obj1 = autoRef obj"
    by (simp_all add: obj1_def)
  from run assms obtain p where p: "poolStack obj1 = Some p"
    by (auto simp: LLBC_Object_AutoRelease_def Let_def obj1_def split: option.splits if_splits)
  show "\<exists>obj'. objects h' this = Some obj' \<and>
               ref obj' = ref obj \<and>
               poolStack obj' =
                 (case poolStack obj of None \<Rightarrow> objbaseTls_poolStack tls | Some p \<Rightarrow> Some p) \<and>
               (\<forall>x. x \<noteq> this \<longrightarrow> objects h' x = objects h x) \<and>
               (rc = LLBC_OK \<longrightarrow>
                  autoRef obj' = autoRef obj + 1 \<and>
                  (\<exists>p frame below. poolStack obj' = Some p \<and> poolStacks h p = frame # below \<and>
                     poolStacks h' = (poolStacks h)(p := (frame @ [this]) # below))) \<and>
               (rc \<noteq> LLBC_OK \<longrightarrow>
                  rc = LLBC_FAILED \<and> autoRef obj' = autoRef obj \<and> poolStacks h' = poolStacks h)"
  proof (cases "poolStacks h p")
    case Nil
    with run assms p have "rc = LLBC_FAILED" and "objects h' = (objects h)(this \<mapsto> obj1)"
      and "poolStacks h' = (poolStacks h)(p := [])"
      by (auto simp: LLBC_Object_AutoRelease_def Let_def obj1_def [symmetric]
          LLBC_AutoReleasePoolStack_AddObject_def)
    moreover have "(poolStacks h)(p := []) = poolStacks h"
      using Nil by (simp add: fun_upd_idem)
    ultimately show ?thesis
      using ps1 r1 a1 by (simp add: LLBC_FAILED_def LLBC_OK_def)
  next
    case (Cons frame below)
    with run assms p have "rc = LLBC_OK"
      and "h' = h\<lparr>objects := (objects h)(this \<mapsto> obj1\<lparr>autoRef := autoRef obj1 + 1\<rparr>),
                   poolStacks := (poolStacks h)(p := (frame @ [this]) # below)\<rparr>"
      by (auto simp: LLBC_Object_AutoRelease_def Let_def obj1_def [symmetric]
          LLBC_AutoReleasePoolStack_AddObject_def)
    moreover have "\<exists>q frame' below'.
        (case poolStack obj of None \<Rightarrow> objbaseTls_poolStack tls | Some p \<Rightarrow> Some p) = Some q \<and>
        poolStacks h q = frame' # below' \<and>
        (poolStacks h)(p := (frame @ [this]) # below) =
          (poolStacks h)(q := (frame' @ [this]) # below')"
      using ps1 p Cons by (intro exI [of _ p] exI [of _ frame] exI [of _ below]) simp
    ultimately show ?thesis
      using ps1 r1 a1 by simp
  qed
qed

text \<open>
  On the sample heap: the fresh object, enlisted from the thread that has a pool stack.
\<close>

theorem AutoRelease_keeps_ref_witness:
  "objects sample_heap 0 = Some LLBC_Object_ctor \<and>
   objbaseTls_poolStack sample_tls \<noteq> None \<and>
   (\<exists>h' obj'. LLBC_Object_AutoRelease 0 sample_tls sample_heap = Inr (LLBC_OK, h') \<and>
      objects h' 0 = Some obj' \<and> ref obj' = ref LLBC_Object_ctor \<and>
      autoRef obj' = autoRef LLBC_Object_ctor + 1)"
proof -
  have a: "objects sample_heap 0 = Some LLBC_Object_ctor"
    by (simp add: sample_heap_def)
  have b: "objbaseTls_poolStack sample_tls \<noteq> None"
    by (simp add: sample_tls_def)
  have "\<exists>h'. LLBC_Object_AutoRelease 0 sample_tls sample_heap = Inr (LLBC_OK, h')"
    by (simp add: LLBC_Object_AutoRelease_def sample_heap_def sample_tls_def LLBC_Object_ctor_def
        LLBC_AutoReleasePoolStack_AddObject_def)
  then obtain h' where c: "LLBC_Object_AutoRelease 0 sample_tls sample_heap = Inr (LLBC_OK, h')" ..
  from AutoRelease_keeps_ref [OF a, of sample_tls] c
  have "\<exists>obj'. objects h' 0 = Some obj' \<and> ref obj' = ref LLBC_Object_ctor \<and>
      autoRef obj' = autoRef LLBC_Object_ctor + 1"
    by blast
  with a b c show ?thesis by blast
qed

text \<open>
  Claim C4. On a live object whose reference count is at least 1, \<open>Retain\<close> followed
  by \<open>Release\<close> returns the heap it started from: the count is what it was and the
  object is still there. (At the largest \<open>int\<close> the increment wraps around and the
  decrement wraps back.)
\<close>

theorem Retain_Release_noop:
  assumes "objects h this = Some obj" and "1 \<le> LLBC_Object_GetRefCount obj"
  shows "and_then (LLBC_Object_Retain this h) (LLBC_Object_Release this) = Inr h"
proof -
  have nz: "ref obj \<noteq> 0"
    using assms(2) by (auto simp: LLBC_Object_GetRefCount_def)
  have upd: "(objects h)(this \<mapsto> obj) = objects h"
    using assms(1) by (simp add: fun_upd_idem)
  show ?thesis
    using assms(1) nz upd
    by (simp add: and_then_def LLBC_Object_Retain_def LLBC_Object_Release_def set_ref_def)
qed

text \<open>
  On the sample heap: the object at address 1.
\<close>

theorem Retain_Release_noop_witness:
  "objects sample_heap 1 = Some \<lparr>ref = 2, autoRef = 1, poolStack = Some 5\<rparr> \<and>
   1 \<le> LLBC_Object_GetRefCount \<lparr>ref = 2, autoRef = 1, poolStack = Some 5\<rparr> \<and>
   and_then (LLBC_Object_Retain 1 sample_heap) (LLBC_Object_Release 1) = Inr sample_heap"
proof -
  have a: "objects sample_heap 1 = Some \<lparr>ref = 2, autoRef = 1, poolStack = Some 5\<rparr>"
    by (simp add: sample_heap_def)
  have b: "1 \<le> LLBC_Object_GetRefCount \<lparr>ref = 2, autoRef = 1, poolStack = Some 5\<rparr>"
    by (simp add: LLBC_Object_GetRefCount_def)
  show ?thesis
    using Retain_Release_noop [OF a b] a b by simp
qed

text \<open>
  Claim C5. On a live object, \<open>Release\<close> stores \<open>ref - 1\<close> and deletes the object
  exactly when that is zero: the object is gone from the returned heap if and only if the
  decremented count is zero, otherwise only its \<open>ref\<close> has changed. With a count of at
  least 2 the object stays, and its count read as an integer is one less.
\<close>

theorem Release_decrements:
  assumes "objects h this = Some obj"
  shows "\<exists>h'. LLBC_Object_Release this h = Inr h' \<and>
           (objects h' this = None \<longleftrightarrow> ref obj - 1 = 0) \<and>
           (ref obj - 1 \<noteq> 0 \<longrightarrow> h' = h\<lparr>objects := (objects h)(this \<mapsto> obj\<lparr>ref := ref obj - 1\<rparr>)\<rparr>) \<and>
           (ref obj - 1 = 0 \<longrightarrow>
              h' = LLBC_Delete this (h\<lparr>objects := (objects h)(this \<mapsto> obj\<lparr>ref := 0\<rparr>)\<rparr>)) \<and>
           (2 \<le> LLBC_Object_GetRefCount obj \<longrightarrow>
              (\<exists>obj'. objects h' this = Some obj' \<and>
                 LLBC_Object_GetRefCount obj' = LLBC_Object_GetRefCount obj - 1))"
proof (cases "ref obj - 1 = 0")
  case True
  then have "ref obj = 1" by simp
  then have "\<not> 2 \<le> LLBC_Object_GetRefCount obj"
    by (simp add: LLBC_Object_GetRefCount_def)
  then show ?thesis
    using assms True
    by (simp add: LLBC_Object_Release_def set_ref_def Delete_gone)
next
  case False
  have "LLBC_Object_GetRefCount (obj\<lparr>ref := ref obj - 1\<rparr>) = LLBC_Object_GetRefCount obj - 1"
    if "2 \<le> LLBC_Object_GetRefCount obj"
    using that sint_dec [of "ref obj"] by (simp add: LLBC_Object_GetRefCount_def)
  then show ?thesis
    using assms False
    by (simp add: LLBC_Object_Release_def set_ref_def)
qed

text \<open>
  On the sample heap: the object of count 2 stays with count 1, the fresh object goes.
\<close>

theorem Release_decrements_witness:
  "objects sample_heap 1 = Some \<lparr>ref = 2, autoRef = 1, poolStack = Some 5\<rparr> \<and>
   LLBC_Object_Release 1 sample_heap =
     Inr (sample_heap\<lparr>objects := (objects sample_heap)(1 \<mapsto> \<lparr>ref = 1, autoRef = 1, poolStack = Some 5\<rparr>)\<rparr>) \<and>
   objects sample_heap 0 = Some LLBC_Object_ctor \<and>
   (\<exists>h'. LLBC_Object_Release 0 sample_heap = Inr h' \<and> objects h' 0 = None)"
proof -
  have a: "objects sample_heap 1 = Some \<lparr>ref = 2, autoRef = 1, poolStack = Some 5\<rparr>"
    by (simp add: sample_heap_def)
  have b: "objects sample_heap 0 = Some LLBC_Object_ctor"
    by (simp add: sample_heap_def)
  have c: "ref \<lparr>ref = 2, autoRef = 1, poolStack = Some (5::nat)\<rparr> - 1 \<noteq> 0"
    and d: "ref LLBC_Object_ctor - 1 = 0"
    by (simp_all add: LLBC_Object_ctor_def)
  have e: "\<lparr>ref = 2, autoRef = 1, poolStack = Some (5::nat)\<rparr>\<lparr>ref := 2 - 1\<rparr> =
      \<lparr>ref = 1, autoRef = 1, poolStack = Some 5\<rparr>"
    by simp
  from Release_decrements [OF a] c e have
    "LLBC_Object_Release 1 sample_heap =
      Inr (sample_heap\<lparr>objects := (objects sample_heap)(1 \<mapsto> \<lparr>ref = 1, autoRef = 1, poolStack = Some 5\<rparr>)\<rparr>)"
    by auto
  moreover from Release_decrements [OF b] d have
    "\<exists>h'. LLBC_Object_Release 0 sample_heap = Inr h' \<and> objects h' 0 = None"
    by auto
  ultimately show ?thesis using a b by simp
qed

text \<open>
  Claim C9. Run by one thread, \<open>SafeRetain\<close> does what \<open>Retain\<close> does and
  \<open>SafeRelease\<close> does what \<open>Release\<close> does, on every heap and every object: the same
  fault on a deleted object, the same count stored, the object deleted in the same
  cases.
\<close>

theorem Safe_variants_equal:
  "LLBC_Object_SafeRetain this h = LLBC_Object_Retain this h \<and>
   LLBC_Object_SafeRelease this h = LLBC_Object_Release this h"
  by (simp add: LLBC_Object_SafeRetain_def LLBC_Object_Retain_def LLBC_AtomicFetchAndAdd_def
      LLBC_Object_SafeRelease_def LLBC_Object_Release_def LLBC_AtomicFetchAndSub_def
      Let_def split: option.splits)

text \<open>
  Claim C10. A freshly constructed object has \<open>ref = 1\<close>, \<open>autoRef = 0\<close> and a null
  \<open>_poolStack\<close>; one \<open>Release\<close> on it deletes it, and nothing else on the heap
  changes.
\<close>

theorem fresh_Object_Release:
  "ref LLBC_Object_ctor = 1 \<and> autoRef LLBC_Object_ctor = 0 \<and> poolStack LLBC_Object_ctor = None \<and>
   (objects h this = Some LLBC_Object_ctor \<longrightarrow>
      LLBC_Object_Release this h = Inr (h\<lparr>objects := (objects h)(this := None)\<rparr>))"
  by (simp add: LLBC_Object_ctor_def LLBC_Object_Release_def set_ref_def LLBC_Delete_def
      LLBC_Object_dtor_def)

text \<open>
  On the sample heap: the fresh object at address 0.
\<close>

theorem fresh_Object_Release_witness:
  "objects sample_heap 0 = Some LLBC_Object_ctor \<and>
   LLBC_Object_Release 0 sample_heap = Inr (sample_heap\<lparr>objects := (objects sample_heap)(0 := None)\<rparr>) \<and>
   objects (sample_heap\<lparr>objects := (objects sample_heap)(0 := None)\<rparr>) 0 = None"
proof -
  have a: "objects sample_heap 0 = Some LLBC_Object_ctor"
    by (simp add: sample_heap_def)
  show ?thesis
    using fresh_Object_Release [of sample_heap 0] a by simp
qed

lemma Delete_pinned: "pinned this p h \<Longrightarrow> pinned this p (LLBC_Delete target h)"
  by (cases "this = target") (simp_all add: pinned_def Delete_gone Delete_others)

lemma set_ref_pinned:
  "objects h target = Some obj \<Longrightarrow> pinned this p h \<Longrightarrow> pinned this p (set_ref target obj r h)"
  by (auto simp: pinned_def set_ref_def)

lemma Release_pinned:
  "pinned this p h \<Longrightarrow> LLBC_Object_Release target h = Inr h1 \<Longrightarrow> pinned this p h1"
  by (auto simp: LLBC_Object_Release_def Let_def Delete_pinned set_ref_pinned
      split: option.splits if_splits)

lemma Retain_pinned:
  "pinned this p h \<Longrightarrow> LLBC_Object_Retain target h = Inr h1 \<Longrightarrow> pinned this p h1"
  by (auto simp: LLBC_Object_Retain_def set_ref_pinned split: option.splits)

lemma AutoRelease_pinned:
  "pinned this p h \<Longrightarrow> LLBC_Object_AutoRelease target tls h = Inr (rc, h1) \<Longrightarrow> pinned this p h1"
  by (auto simp: LLBC_Object_AutoRelease_def Let_def pinned_def
      LLBC_AutoReleasePoolStack_AddObject_def split: option.splits if_splits list.splits)

lemma apply_op_pinned:
  "pinned this p h \<Longrightarrow> apply_op x h = Inr h1 \<Longrightarrow> pinned this p h1"
proof (cases x)
  case (Pair target op)
  assume pin: "pinned this p h" and run: "apply_op x h = Inr h1"
  show ?thesis
  proof (cases op)
    case OpRelease
    with Pair pin run show ?thesis by (simp add: Release_pinned)
  next
    case OpSafeRetain
    with Pair pin run show ?thesis
      by (auto simp: LLBC_Object_SafeRetain_def LLBC_AtomicFetchAndAdd_def set_ref_pinned
          split: option.splits)
  next
    case OpSafeRelease
    with Pair pin run show ?thesis
      by (auto simp: LLBC_Object_SafeRelease_def LLBC_AtomicFetchAndSub_def Let_def
          Delete_pinned set_ref_pinned split: option.splits if_splits)
  next
    case OpRetain
    with Pair pin run show ?thesis by (simp add: Retain_pinned)
  next
    case (OpAutoRelease tls)
    with Pair pin run show ?thesis
      by (auto split: sum.splits dest: AutoRelease_pinned)
  qed
qed

lemma apply_ops_pinned:
  "pinned this p h \<Longrightarrow> apply_ops ops h = Inr h' \<Longrightarrow> pinned this p h'"
proof (induction ops arbitrary: h)
  case Nil
  then show ?case by simp
next
  case (Cons x xs)
  from Cons.prems(2) obtain h1 where one: "apply_op x h = Inr h1" and rest: "apply_ops xs h1 = Inr h'"
    by (auto simp: and_then_def split: sum.splits)
  from Cons.prems(1) one have "pinned this p h1" by (rule apply_op_pinned)
  then show ?case using rest by (rule Cons.IH)
qed

text \<open>
  Claim C8. Once the \<open>_poolStack\<close> of a live object points to a pool stack, it
  points to that stack after any run of \<open>Release\<close>, \<open>SafeRetain\<close>, \<open>SafeRelease\<close>,
  \<open>Retain\<close> and \<open>AutoRelease\<close> calls, on this object or on others and from threads with
  any thread-local pool stack, for as long as the object lives.
\<close>

theorem poolStack_not_reassigned:
  assumes "objects h this = Some obj" and "poolStack obj = Some p"
    and "apply_ops ops h = Inr h'" and "objects h' this = Some obj'"
  shows "poolStack obj' = Some p"
proof -
  have "pinned this p h" using assms(1,2) by (simp add: pinned_def)
  then have "pinned this p h'" using assms(3) by (rule apply_ops_pinned)
  then show ?thesis using assms(4) by (simp add: pinned_def)
qed

lemma sample_ops_run: "apply_ops sample_ops sample_heap = Inr sample_heap_after"
  by (simp add: sample_ops_def sample_heap_def sample_heap_after_def sample_tls_def and_then_def
      LLBC_Object_AutoRelease_def LLBC_AutoReleasePoolStack_AddObject_def
      LLBC_Object_Retain_def LLBC_Object_Release_def LLBC_Object_SafeRetain_def
      LLBC_Object_SafeRelease_def LLBC_AtomicFetchAndAdd_def LLBC_AtomicFetchAndSub_def
      set_ref_def LLBC_Delete_def LLBC_Object_dtor_def LLBC_Object_ctor_def
      LLBC_AutoReleasePoolStack_RemoveObject_def Let_def)

text \<open>
  On the sample heap: the object at address 1, enlisted in stack 5, is enlisted again
  from a thread whose pool stack is stack 6.
\<close>

theorem poolStack_not_reassigned_witness:
  "objects sample_heap 1 = Some \<lparr>ref = 2, autoRef = 1, poolStack = Some 5\<rparr> \<and>
   poolStack \<lparr>ref = 2, autoRef = 1, poolStack = Some 5\<rparr> = Some 5 \<and>
   apply_ops sample_ops sample_heap = Inr sample_heap_after \<and>
   objects sample_heap_after 1 = Some \<lparr>ref = 2, autoRef = 2, poolStack = Some 5\<rparr> \<and>
   poolStack \<lparr>ref = 2, autoRef = 2, poolStack = Some (5::nat)\<rparr> = Some 5"
proof -
  have a: "objects sample_heap 1 = Some \<lparr>ref = 2, autoRef = 1, poolStack = Some 5\<rparr>"
    by (simp add: sample_heap_def)
  have b: "poolStack \<lparr>ref = 2, autoRef = 1, poolStack = Some 5\<rparr> = Some 5"
    by simp
  have c: "objects sample_heap_after 1 = Some \<lparr>ref = 2, autoRef = 2, poolStack = Some 5\<rparr>"
    by (simp add: sample_heap_after_def)
  show ?thesis
    using poolStack_not_reassigned [OF a b sample_ops_run c] a b c sample_ops_run by simp
qed

end
